theory Spec2Isabelle
  imports Main "HOL-Library.Product_Lexorder"
begin

section \<open>The round-robin scheduler of oncall (scheduler/round-robin.py)\<close>

text \<open>
  The scheduler talks to a MySQL database through a cursor. The embedding makes the
  database an explicit value: one list of rows per table, in table order. Every
  \<^verbatim>\<open>cursor.execute\<close> of the source is a function of that value (a query) or a function
  returning the updated value (an INSERT or UPDATE). A Python exception is the left
  summand of the result.
\<close>

subsection \<open>Tables\<close>

datatype py_error =
    ValueError        \<comment> \<open>\<^verbatim>\<open>min()\<close> of an empty sequence, \<^verbatim>\<open>list.index\<close> of an absent value\<close>
  | HTTPBadRequest    \<comment> \<open>the 400 "invalid start" answer of the populate request\<close>

type_synonym link_id = string

record schedule_row =
  sr_id :: int
  sr_team_id :: int
  sr_roster_id :: int
  sr_role_id :: int
  sr_auto_populate_threshold :: int
  sr_advanced_mode :: bool
  sr_last_scheduled_user_id :: "int option"

record roster_user_row =
  ru_roster_id :: int
  ru_user_id :: int
  ru_in_rotation :: bool

record schedule_order_row =
  so_schedule_id :: int
  so_user_id :: int
  so_priority :: int

record event_row =
  ev_team_id :: int
  ev_schedule_id :: "int option"
  ev_start :: int
  ev_end :: int
  ev_user_id :: int
  ev_role_id :: int
  ev_link_id :: "link_id option"

record db =
  schedule_tbl :: "schedule_row list"
  roster_user_tbl :: "roster_user_row list"
  schedule_order_tbl :: "schedule_order_row list"
  event_tbl :: "event_row list"

text \<open>
  The \<^verbatim>\<open>schedule\<close> dictionary the API layer hands to the scheduler, with the keys the
  scheduler reads. \<^verbatim>\<open>events\<close> is the shift template: (offset, duration) pairs.
  \<open>period_len\<close> is not a key of the dictionary: it is the length in seconds of the
  template's recurrence period, which the specification's expander takes as given; only
  the engine of the base class reads it.
\<close>

record schedule =
  schedule_id :: int
  team_id :: int
  roster_id :: int
  role_id :: int
  events :: "(int \<times> int) list"
  auto_populate_threshold :: int
  period_len :: int

text \<open>One segment of a period, as the dictionaries of \<^verbatim>\<open>future_events\<close>.\<close>

record future_event =
  fe_start :: int
  fe_end :: int

subsection \<open>Python helpers\<close>

text \<open>\<^verbatim>\<open>min(e['start'] for e in future_events)\<close>: raises ValueError on an empty sequence.\<close>

definition py_min :: "int list \<Rightarrow> py_error + int" where
  "py_min xs = (case xs of [] \<Rightarrow> Inl ValueError | x # ys \<Rightarrow> Inr (fold min ys x))"

text \<open>\<^verbatim>\<open>roster.index(u)\<close>: the first position of \<open>u\<close>, ValueError when absent.\<close>

fun py_index :: "int list \<Rightarrow> int \<Rightarrow> py_error + nat" where
  "py_index [] u = Inl ValueError"
| "py_index (x # xs) u =
     (if x = u then Inr 0
      else (case py_index xs u of Inl e \<Rightarrow> Inl e | Inr i \<Rightarrow> Inr (Suc i)))"

text \<open>
  \<^verbatim>\<open>ORDER BY last_start DESC ... LIMIT 1\<close> over (user, last_start) rows: a row with the
  greatest \<open>last_start\<close>. SQL leaves the choice among equal rows open; the model takes
  the earliest such row.
\<close>

fun order_desc_limit1 :: "(int \<times> int) list \<Rightarrow> (int \<times> int) option" where
  "order_desc_limit1 [] = None"
| "order_desc_limit1 (r # rs) =
     (case order_desc_limit1 rs of
        None \<Rightarrow> Some r
      | Some r' \<Rightarrow> if snd r < snd r' then Some r' else Some r)"

subsection \<open>guess_last_scheduled_user\<close>

text \<open>The WHERE clause of the inner query.\<close>

definition qualifying_events :: "db \<Rightarrow> schedule \<Rightarrow> int \<Rightarrow> int list \<Rightarrow> event_row list" where
  "qualifying_events d schedule start roster =
     filter (\<lambda>e. ev_team_id e = team_id schedule \<and> ev_user_id e \<in> set roster \<and>
                 ev_start e \<le> start \<and> ev_role_id e = role_id schedule)
            (event_tbl d)"

text \<open>\<^verbatim>\<open>SELECT user_id, MAX(start) AS last_start ... GROUP BY user_id\<close>.\<close>

definition group_by_user :: "event_row list \<Rightarrow> (int \<times> int) list" where
  "group_by_user rows =
     map (\<lambda>u. (u, Max (set (map ev_start (filter (\<lambda>e. ev_user_id e = u) rows)))))
         (remdups (map ev_user_id rows))"

definition guess_last_scheduled_user :: "db \<Rightarrow> schedule \<Rightarrow> int \<Rightarrow> int list \<Rightarrow> int option" where
  "guess_last_scheduled_user d schedule start roster =
     (case order_desc_limit1 (group_by_user (qualifying_events d schedule start roster)) of
        None \<Rightarrow> None
      | Some row \<Rightarrow> Some (fst row))"

subsection \<open>find_next_user_id\<close>

text \<open>\<^verbatim>\<open>SELECT user_id FROM roster_user WHERE roster_id = %s AND in_rotation = TRUE\<close>, as a set.\<close>

definition roster_users :: "db \<Rightarrow> schedule \<Rightarrow> int set" where
  "roster_users d schedule =
     set (map ru_user_id
            (filter (\<lambda>r. ru_roster_id r = roster_id schedule \<and> ru_in_rotation r)
                    (roster_user_tbl d)))"

text \<open>
  \<^verbatim>\<open>SELECT user_id, priority FROM schedule_order WHERE schedule_id = %s
  ORDER BY priority, user_id\<close>.
\<close>

definition schedule_order_rows :: "db \<Rightarrow> schedule \<Rightarrow> schedule_order_row list" where
  "schedule_order_rows d schedule =
     sort_key (\<lambda>r. (so_priority r, so_user_id r))
       (filter (\<lambda>r. so_schedule_id r = schedule_id schedule) (schedule_order_tbl d))"

text \<open>\<^verbatim>\<open>roster = [row['user_id'] for row in cursor if row['user_id'] in roster_users]\<close>.\<close>

definition roster_of :: "db \<Rightarrow> schedule \<Rightarrow> int list" where
  "roster_of d schedule =
     map so_user_id
       (filter (\<lambda>row. so_user_id row \<in> roster_users d schedule) (schedule_order_rows d schedule))"

text \<open>\<^verbatim>\<open>SELECT last_scheduled_user_id FROM schedule WHERE id = %s\<close>.\<close>

definition cursor_rows :: "db \<Rightarrow> schedule \<Rightarrow> int option list" where
  "cursor_rows d schedule =
     map sr_last_scheduled_user_id
       (filter (\<lambda>r. sr_id r = schedule_id schedule) (schedule_tbl d))"

text \<open>\<^verbatim>\<open>last_user not in roster\<close>, where \<open>last_user\<close> may be NULL (Python's None).\<close>

definition not_in_roster :: "int option \<Rightarrow> int list \<Rightarrow> bool" where
  "not_in_roster last_user roster =
     (case last_user of None \<Rightarrow> True | Some u \<Rightarrow> u \<notin> set roster)"

text \<open>The last two lines: \<^verbatim>\<open>roster[(roster.index(last_user) + 1) % len(roster)]\<close>.\<close>

definition next_after :: "int list \<Rightarrow> int \<Rightarrow> py_error + int option" where
  "next_after roster last_user =
     (case py_index roster last_user of
        Inl e \<Rightarrow> Inl e
      | Inr last_idx \<Rightarrow> Inr (Some (roster ! ((last_idx + 1) mod length roster))))"

definition find_next_user_id :: "db \<Rightarrow> schedule \<Rightarrow> future_event list \<Rightarrow> py_error + int option" where
  "find_next_user_id d schedule future_events =
     (let roster = roster_of d schedule;
          rows = cursor_rows d schedule
      in if rows = [] \<or> roster = [] then Inr None
         else
           (let last_user = hd rows
            in if not_in_roster last_user roster then
                 (case py_min (map fe_start future_events) of
                    Inl e \<Rightarrow> Inl e
                  | Inr start \<Rightarrow>
                      (case guess_last_scheduled_user d schedule start roster of
                         None \<Rightarrow> Inr (Some (roster ! 0))
                       | Some u \<Rightarrow> next_after roster u))
               else next_after roster (the last_user)))"

subsection \<open>create_events\<close>

text \<open>\<^verbatim>\<open>INSERT INTO event (...) VALUES (...)\<close>: the row goes to the end of the table.\<close>

definition insert_event :: "event_row \<Rightarrow> db \<Rightarrow> db" where
  "insert_event e d = d\<lparr>event_tbl := event_tbl d @ [e]\<rparr>"

text \<open>
  \<^verbatim>\<open>UPDATE schedule SET last_scheduled_user_id = %s\<close>. The statement has no WHERE
  clause: it writes the column in every row of the table.
\<close>

definition set_last_scheduled_user_id :: "int option \<Rightarrow> db \<Rightarrow> db" where
  "set_last_scheduled_user_id v d =
     d\<lparr>schedule_tbl := map (\<lambda>r. r\<lparr>sr_last_scheduled_user_id := v\<rparr>) (schedule_tbl d)\<rparr>"

text \<open>
  \<^verbatim>\<open>gen_link_id\<close> is imported from \<^verbatim>\<open>oncall.utils\<close>, which is not among the sources: it is
  a parameter here, \<open>gen_link_id n\<close> being what the call returns after \<open>n\<close> earlier calls.
  The state a run threads is the database together with that count. \<open>skip_match\<close> is a
  parameter of the source that its body never reads.
\<close>

definition new_event :: "int \<Rightarrow> int \<Rightarrow> int \<Rightarrow> int \<Rightarrow> link_id option \<Rightarrow> future_event \<Rightarrow> event_row" where
  "new_event team schedule_id' user_id role link event =
     \<lparr>ev_team_id = team, ev_schedule_id = Some schedule_id', ev_start = fe_start event,
      ev_end = fe_end event, ev_user_id = user_id, ev_role_id = role, ev_link_id = link\<rparr>"

definition create_events ::
  "(nat \<Rightarrow> link_id) \<Rightarrow> int \<Rightarrow> int \<Rightarrow> int \<Rightarrow> future_event list \<Rightarrow> int \<Rightarrow> bool \<Rightarrow>
   db \<times> nat \<Rightarrow> db \<times> nat" where
  "create_events gen_link_id team schedule_id' user_id events' role skip_match st =
     (let (d, n) = st;
          (d', n') =
            (if length events' = 1 then
               (insert_event (new_event team schedule_id' user_id role None (hd events')) d, n)
             else
               (let link_id = gen_link_id n
                in (fold (\<lambda>event. insert_event
                            (new_event team schedule_id' user_id role (Some link_id) event))
                      events' d,
                    Suc n)))
      in (set_last_scheduled_user_id (Some user_id) d', n'))"

subsection \<open>populate and preview\<close>

text \<open>
  Both null the cursor column and hand over to the method of the base class
  \<^verbatim>\<open>default.Scheduler\<close>, which is not among the sources: the base method is the first
  parameter. Whatever it is, it receives the database after the UPDATE. The response
  object that \<^verbatim>\<open>preview\<close> passes on for the base method to fill in is the result here.
\<close>

definition populate ::
  "(schedule \<Rightarrow> int \<Rightarrow> db \<times> nat \<Rightarrow> 'r) \<Rightarrow> schedule \<Rightarrow> int \<Rightarrow> db \<times> nat \<Rightarrow> 'r" where
  "populate super_populate schedule start_time st =
     super_populate schedule start_time (set_last_scheduled_user_id None (fst st), snd st)"

definition preview ::
  "(schedule \<Rightarrow> int \<Rightarrow> db \<times> nat \<Rightarrow> 'r) \<Rightarrow> schedule \<Rightarrow> int \<Rightarrow> db \<times> nat \<Rightarrow> 'r" where
  "preview super_preview schedule start_time st =
     super_preview schedule start_time (set_last_scheduled_user_id None (fst st), snd st)"

section \<open>The engine of the base class\<close>

text \<open>
  \<^verbatim>\<open>default.Scheduler\<close>, whose \<^verbatim>\<open>populate\<close> and \<^verbatim>\<open>preview\<close> the round-robin scheduler calls
  through \<^verbatim>\<open>super\<close>, and the request handlers around it are not among the sources. They
  are written here from the specification; the strategy and the writer they call are
  the methods of the round-robin scheduler above, as Python's dispatch on \<^verbatim>\<open>self\<close>
  selects them.
\<close>

text \<open>
  Modelled from the spec: the number of periods of the RecurrenceExpander
  (\<^verbatim>\<open>default.Scheduler\<close>, section 4.1): \<open>k = 0 \<dots> ceil(H * 86400 / P) - 1\<close>, with \<open>H\<close> the
  horizon in days and \<open>P\<close> the period length in seconds. No period when \<open>P\<close> is not
  positive.
\<close>

definition period_count :: "schedule \<Rightarrow> nat" where
  "period_count s =
     (if period_len s \<le> 0 then 0
      else nat (- ((- (auto_populate_threshold s * 86400)) div period_len s)))"

text \<open>
  Modelled from the spec: the segments of one period (section 4.1): one interval per
  template segment, from \<open>period_start + offset\<close> to \<open>period_start + offset + duration\<close>.
\<close>

definition period_segments :: "schedule \<Rightarrow> int \<Rightarrow> future_event list" where
  "period_segments s period_start =
     map (\<lambda>(offset, duration).
            \<lparr>fe_start = period_start + offset, fe_end = period_start + offset + duration\<rparr>)
         (events s)"

text \<open>
  Modelled from the spec: the RecurrenceExpander (section 4.1): the periods
  \<open>[S + k * P, S + (k + 1) * P)\<close> in chronological order.
\<close>

definition expand_periods :: "schedule \<Rightarrow> int \<Rightarrow> future_event list list" where
  "expand_periods s start =
     map (\<lambda>k. period_segments s (start + int k * period_len s)) [0..<period_count s]"

text \<open>
  Modelled from the spec: the loop of the PopulateEngine over the periods (sections 2
  and 5): strictly in chronological order, each period asks the rotation strategy for a
  user and hands its segments to the event writer; a period with no candidate is left
  unassigned; a failure ends the run.
\<close>

fun run_periods ::
  "(nat \<Rightarrow> link_id) \<Rightarrow> schedule \<Rightarrow> future_event list list \<Rightarrow> db \<times> nat \<Rightarrow> py_error + db \<times> nat" where
  "run_periods gen_link_id s [] st = Inr st"
| "run_periods gen_link_id s (epoch # rest) st =
     (case find_next_user_id (fst st) s epoch of
        Inl e \<Rightarrow> Inl e
      | Inr None \<Rightarrow> run_periods gen_link_id s rest st
      | Inr (Some user_id) \<Rightarrow>
          run_periods gen_link_id s rest
            (create_events gen_link_id (team_id s) (schedule_id s) user_id epoch (role_id s)
               True st))"

text \<open>
  Modelled from the spec: \<^verbatim>\<open>populate\<close> of the base class (section 4.6): it rejects a
  start earlier than now minus the schedule's horizon with the invalid-start error,
  and otherwise runs the periods of the horizon. \<open>now\<close> is the clock reading.
\<close>

definition default_populate ::
  "(nat \<Rightarrow> link_id) \<Rightarrow> int \<Rightarrow> schedule \<Rightarrow> int \<Rightarrow> db \<times> nat \<Rightarrow> py_error + db \<times> nat" where
  "default_populate gen_link_id now s start st =
     (if start < now - auto_populate_threshold s * 86400 then Inl HTTPBadRequest
      else run_periods gen_link_id s (expand_periods s start) st)"

text \<open>
  Modelled from the spec: \<^verbatim>\<open>preview\<close> of the base class (section 4.6): the identical
  pipeline; what it returns is the event table its transaction would hold.
\<close>

definition default_preview ::
  "(nat \<Rightarrow> link_id) \<Rightarrow> int \<Rightarrow> schedule \<Rightarrow> int \<Rightarrow> db \<times> nat \<Rightarrow> py_error + event_row list" where
  "default_preview gen_link_id now s start st =
     (case default_populate gen_link_id now s start st of
        Inl e \<Rightarrow> Inl e
      | Inr st' \<Rightarrow> Inr (event_tbl (fst st')))"

text \<open>
  Modelled from the spec: one populate request (sections 5 and 7): the transaction is
  committed only after all periods are processed, and a failure leaves nothing of the
  call behind. The result is the answer and the database as persisted afterwards.
\<close>

definition populate_request ::
  "(nat \<Rightarrow> link_id) \<Rightarrow> int \<Rightarrow> schedule \<Rightarrow> int \<Rightarrow> db \<times> nat \<Rightarrow> (py_error + unit) \<times> db" where
  "populate_request gen_link_id now s start st =
     (case populate (default_populate gen_link_id now) s start st of
        Inl e \<Rightarrow> (Inl e, fst st)
      | Inr st' \<Rightarrow> (Inr (), fst st'))"

text \<open>
  Modelled from the spec: one preview request (sections 4.6 and 5): its transaction is
  always rolled back, so the persisted database is the one it started from.
\<close>

definition preview_request ::
  "(nat \<Rightarrow> link_id) \<Rightarrow> int \<Rightarrow> schedule \<Rightarrow> int \<Rightarrow> db \<times> nat \<Rightarrow> (py_error + event_row list) \<times> db" where
  "preview_request gen_link_id now s start st =
     (preview (default_preview gen_link_id now) s start st, fst st)"

section \<open>Properties\<close>

subsection \<open>Relations the statements use\<close>


text \<open>
  An event with its generated identifier blanked: a link id, where there is one, is
  replaced by the empty string. The row's position in the table stands for its
  auto-increment id, so equal lists of blanked rows are equal up to identifiers.
\<close>

definition erase_ids :: "event_row \<Rightarrow> event_row" where
  "erase_ids e = e\<lparr>ev_link_id := map_option (\<lambda>_. []) (ev_link_id e)\<rparr>"

text \<open>Two databases that are equal up to the generated identifiers of their events.\<close>

definition same_but_ids :: "db \<Rightarrow> db \<Rightarrow> bool" where
  "same_but_ids d d' \<longleftrightarrow>
     schedule_tbl d = schedule_tbl d' \<and>
     roster_user_tbl d = roster_user_tbl d' \<and>
     schedule_order_tbl d = schedule_order_tbl d' \<and>
     map erase_ids (event_tbl d) = map erase_ids (event_tbl d')"

text \<open>Two databases that differ at most in the stored cursors of their schedules.\<close>

definition same_but_cursor :: "db \<Rightarrow> db \<Rightarrow> bool" where
  "same_but_cursor d1 d2 \<longleftrightarrow>
     roster_user_tbl d1 = roster_user_tbl d2 \<and>
     schedule_order_tbl d1 = schedule_order_tbl d2 \<and>
     event_tbl d1 = event_tbl d2 \<and>
     list_all2 (\<lambda>r1 r2. r2 = r1\<lparr>sr_last_scheduled_user_id := sr_last_scheduled_user_id r2\<rparr>)
       (schedule_tbl d1) (schedule_tbl d2)"

subsection \<open>Scenarios\<close>

text \<open>
  The round-robin test of the repository: three users in rotation (and a fourth who
  is not), a weekly shift, a horizon of 28 days, one earlier event of the first user.
  Three users share priority 0, in table order 102, 104, 101. A second schedule of
  another team shares the table.
\<close>

definition rr_schedule :: schedule where
  "rr_schedule = \<lparr>schedule_id = 1, team_id = 10, roster_id = 20, role_id = 30,
     events = [(0, 604800)], auto_populate_threshold = 28, period_len = 604800\<rparr>"

definition rr_db :: db where
  "rr_db = \<lparr>
     schedule_tbl =
       [\<lparr>sr_id = 1, sr_team_id = 10, sr_roster_id = 20, sr_role_id = 30,
         sr_auto_populate_threshold = 28, sr_advanced_mode = False,
         sr_last_scheduled_user_id = None\<rparr>,
        \<lparr>sr_id = 2, sr_team_id = 11, sr_roster_id = 21, sr_role_id = 30,
         sr_auto_populate_threshold = 14, sr_advanced_mode = False,
         sr_last_scheduled_user_id = Some 201\<rparr>],
     roster_user_tbl =
       [\<lparr>ru_roster_id = 20, ru_user_id = 103, ru_in_rotation = True\<rparr>,
        \<lparr>ru_roster_id = 20, ru_user_id = 101, ru_in_rotation = True\<rparr>,
        \<lparr>ru_roster_id = 20, ru_user_id = 102, ru_in_rotation = True\<rparr>,
        \<lparr>ru_roster_id = 20, ru_user_id = 104, ru_in_rotation = False\<rparr>],
     schedule_order_tbl =
       [\<lparr>so_schedule_id = 1, so_user_id = 103, so_priority = 2\<rparr>,
        \<lparr>so_schedule_id = 1, so_user_id = 102, so_priority = 0\<rparr>,
        \<lparr>so_schedule_id = 1, so_user_id = 104, so_priority = 0\<rparr>,
        \<lparr>so_schedule_id = 1, so_user_id = 101, so_priority = 0\<rparr>],
     event_tbl =
       [\<lparr>ev_team_id = 10, ev_schedule_id = None, ev_start = 1000, ev_end = 2000,
         ev_user_id = 101, ev_role_id = 30, ev_link_id = None\<rparr>]\<rparr>"

text \<open>The same database with a cursor left over from an earlier run.\<close>

definition rr_db_stale :: db where
  "rr_db_stale = set_last_scheduled_user_id (Some 103) rr_db"

text \<open>The same database with an empty calendar.\<close>

definition rr_db_fresh :: db where
  "rr_db_fresh = rr_db\<lparr>event_tbl := []\<rparr>"

text \<open>The same database with nobody in rotation.\<close>

definition rr_db_idle :: db where
  "rr_db_idle = rr_db\<lparr>roster_user_tbl := []\<rparr>"

text \<open>
  The skip test of the repository, for the round-robin scheduler: a hand-made event
  (no schedule) of the third user already covers the first week from 3000.
\<close>

definition covered_db :: db where
  "covered_db = rr_db\<lparr>event_tbl :=
     [\<lparr>ev_team_id = 10, ev_schedule_id = None, ev_start = 3000, ev_end = 607800,
       ev_user_id = 103, ev_role_id = 30, ev_link_id = None\<rparr>]\<rparr>"

text \<open>A fortnight of two half-day segments a week, and two link id generators.\<close>

definition split_schedule :: schedule where
  "split_schedule = rr_schedule\<lparr>events := [(0, 43200), (86400, 43200)],
     auto_populate_threshold := 14\<rparr>"

definition link_a :: "nat \<Rightarrow> link_id" where
  "link_a n = replicate (Suc n) CHR ''a''"

definition link_b :: "nat \<Rightarrow> link_id" where
  "link_b n = replicate (Suc n) CHR ''b''"

section \<open>Lemmas\<close>

subsection \<open>The Python helpers and the queries\<close>

lemma py_min_nonempty: "py_min xs = Inr (Min (set xs))" if "xs \<noteq> []"
proof (cases xs)
  case Nil
  with that show ?thesis by simp
next
  case (Cons a list)
  then show ?thesis using Min.set_eq_fold[of a list] by (simp add: py_min_def)
qed

lemma py_index_notin: "u \<notin> set xs \<Longrightarrow> py_index xs u = Inl ValueError"
  by (induction xs) auto

lemma py_index_in:
  "u \<in> set xs \<Longrightarrow> \<exists>i. py_index xs u = Inr i \<and> i < length xs \<and> xs ! i = u \<and> (\<forall>j<i. xs ! j \<noteq> u)"
proof (induction xs)
  case Nil
  then show ?case by simp
next
  case (Cons x xs)
  show ?case
  proof (cases "x = u")
    case True
    then show ?thesis by simp
  next
    case False
    with Cons.prems have "u \<in> set xs" by simp
    from Cons.IH[OF this] obtain i where i: "py_index xs u = Inr i" "i < length xs" "xs ! i = u" "\<forall>j<i. xs ! j \<noteq> u"
      by blast
    have "\<forall>j<Suc i. (x # xs) ! j \<noteq> u"
      using False i(4) by (auto simp: nth_Cons split: nat.splits)
    with False i show ?thesis by simp
  qed
qed

lemma order_desc_limit1_None: "order_desc_limit1 rs = None \<longleftrightarrow> rs = []"
  by (induction rs) (auto split: option.splits)

lemma order_desc_limit1_Some:
  "order_desc_limit1 rs = Some r \<Longrightarrow> r \<in> set rs \<and> (\<forall>r' \<in> set rs. snd r' \<le> snd r)"
proof (induction rs arbitrary: r)
  case Nil
  then show ?case by simp
next
  case (Cons a rs)
  then show ?case
    by (fastforce split: option.splits if_splits simp: order_desc_limit1_None)
qed

lemma group_by_user_mem:
  assumes "(u, m) \<in> set (group_by_user rows)"
  shows "(\<exists>e \<in> set rows. ev_user_id e = u \<and> ev_start e = m) \<and>
         (\<forall>e \<in> set rows. ev_user_id e = u \<longrightarrow> ev_start e \<le> m)"
proof -
  let ?S = "set (map ev_start (filter (\<lambda>e. ev_user_id e = u) rows))"
  from assms have u: "u \<in> ev_user_id ` set rows" and m: "m = Max ?S"
    by (auto simp: group_by_user_def)
  have fin: "finite ?S" by simp
  from u have ne: "?S \<noteq> {}" by auto
  from Max_in[OF fin ne] m have "m \<in> ?S" by simp
  then have 1: "\<exists>e \<in> set rows. ev_user_id e = u \<and> ev_start e = m" by auto
  have 2: "\<forall>e \<in> set rows. ev_user_id e = u \<longrightarrow> ev_start e \<le> m"
    using m fin by (auto intro!: Max_ge)
  from 1 2 show ?thesis by blast
qed

lemma group_by_user_users: "fst ` set (group_by_user rows) = ev_user_id ` set rows"
  by (auto simp: group_by_user_def image_iff)

lemma group_by_user_Nil: "group_by_user rows = [] \<longleftrightarrow> rows = []"
  by (auto simp: group_by_user_def)

lemma guess_None:
  "guess_last_scheduled_user d s start roster = None \<longleftrightarrow> qualifying_events d s start roster = []"
proof -
  have "order_desc_limit1 (group_by_user (qualifying_events d s start roster)) = None
          \<longleftrightarrow> qualifying_events d s start roster = []"
    by (simp add: order_desc_limit1_None group_by_user_Nil)
  then show ?thesis
    by (auto simp: guess_last_scheduled_user_def split: option.splits)
qed

lemma guess_Some:
  assumes "guess_last_scheduled_user d s start roster = Some u"
  shows "\<exists>e \<in> set (qualifying_events d s start roster). ev_user_id e = u \<and>
           (\<forall>e' \<in> set (qualifying_events d s start roster). ev_start e' \<le> ev_start e)"
proof -
  let ?q = "qualifying_events d s start roster"
  from assms obtain m where r: "order_desc_limit1 (group_by_user ?q) = Some (u, m)"
    by (auto simp: guess_last_scheduled_user_def split: option.splits)
  from order_desc_limit1_Some[OF r]
  have mem: "(u, m) \<in> set (group_by_user ?q)"
    and top: "\<forall>r' \<in> set (group_by_user ?q). snd r' \<le> m" by auto
  from group_by_user_mem[OF mem] obtain e where e: "e \<in> set ?q" "ev_user_id e = u" "ev_start e = m"
    by blast
  have "ev_start e' \<le> m" if "e' \<in> set ?q" for e'
  proof -
    from that have "ev_user_id e' \<in> fst ` set (group_by_user ?q)"
      by (simp add: group_by_user_users)
    then obtain m' where m': "(ev_user_id e', m') \<in> set (group_by_user ?q)" by auto
    from group_by_user_mem[OF m'] that have "ev_start e' \<le> m'" by blast
    moreover from top m' have "m' \<le> m" by auto
    ultimately show ?thesis by simp
  qed
  with e show ?thesis by auto
qed

lemma guess_in_roster:
  "guess_last_scheduled_user d s start roster = Some u \<Longrightarrow> u \<in> set roster"
  using guess_Some[of d s start roster u] by (auto simp: qualifying_events_def)

subsection \<open>The branches of find_next_user_id\<close>

lemma find_next_user_id_bail:
  "cursor_rows d s = [] \<or> roster_of d s = [] \<Longrightarrow> find_next_user_id d s fe = Inr None"
  by (auto simp: find_next_user_id_def Let_def)

lemma find_next_user_id_stored:
  "cursor_rows d s = c # cs \<Longrightarrow> roster_of d s \<noteq> [] \<Longrightarrow> \<not> not_in_roster c (roster_of d s) \<Longrightarrow>
   find_next_user_id d s fe = next_after (roster_of d s) (the c)"
  by (simp add: find_next_user_id_def Let_def)

lemma find_next_user_id_guess:
  "cursor_rows d s = c # cs \<Longrightarrow> roster_of d s \<noteq> [] \<Longrightarrow> not_in_roster c (roster_of d s) \<Longrightarrow>
   find_next_user_id d s fe =
     (case py_min (map fe_start fe) of
        Inl e \<Rightarrow> Inl e
      | Inr start \<Rightarrow>
          (case guess_last_scheduled_user d s start (roster_of d s) of
             None \<Rightarrow> Inr (Some (roster_of d s ! 0))
           | Some u \<Rightarrow> next_after (roster_of d s) u))"
  by (simp add: find_next_user_id_def Let_def)

lemma next_after_in:
  assumes "u \<in> set roster"
  shows "\<exists>i<length roster. roster ! i = u \<and> (\<forall>j<i. roster ! j \<noteq> u) \<and>
           next_after roster u = Inr (Some (roster ! ((i + 1) mod length roster)))"
proof -
  from py_index_in[OF assms] obtain i where
    "py_index roster u = Inr i" "i < length roster" "roster ! i = u" "\<forall>j<i. roster ! j \<noteq> u"
    by blast
  then show ?thesis by (auto simp: next_after_def)
qed

subsection \<open>What create_events and the cursor updates write\<close>

lemma fold_insert_event:
  "event_tbl (fold (\<lambda>event. insert_event (f event)) evs d) = event_tbl d @ map f evs"
  by (induction evs arbitrary: d) (simp_all add: insert_event_def)

lemma fold_insert_event_other:
  "schedule_tbl (fold (\<lambda>event. insert_event (f event)) evs d) = schedule_tbl d"
  "roster_user_tbl (fold (\<lambda>event. insert_event (f event)) evs d) = roster_user_tbl d"
  "schedule_order_tbl (fold (\<lambda>event. insert_event (f event)) evs d) = schedule_order_tbl d"
  by (induction evs arbitrary: d) (simp_all add: insert_event_def)

lemma create_events_event_tbl:
  "event_tbl (fst (create_events gen team sid user evs role skip (d, n))) =
     event_tbl d @
     map (new_event team sid user role (if length evs = 1 then None else Some (gen n))) evs"
proof (cases "length evs = 1")
  case True
  then obtain e where "evs = [e]" by (cases evs) auto
  then show ?thesis
    by (simp add: create_events_def set_last_scheduled_user_id_def insert_event_def)
next
  case False
  then show ?thesis
    by (simp add: create_events_def set_last_scheduled_user_id_def fold_insert_event Let_def)
qed

lemma create_events_counter:
  "snd (create_events gen team sid user evs role skip (d, n)) = (if length evs = 1 then n else Suc n)"
  by (simp add: create_events_def Let_def)

lemma create_events_schedule_tbl:
  "schedule_tbl (fst (create_events gen team sid user evs role skip (d, n))) =
     map (\<lambda>r. r\<lparr>sr_last_scheduled_user_id := Some user\<rparr>) (schedule_tbl d)"
  by (simp add: create_events_def set_last_scheduled_user_id_def insert_event_def
      fold_insert_event_other Let_def)

lemma create_events_other_tbls:
  "roster_user_tbl (fst (create_events gen team sid user evs role skip (d, n))) = roster_user_tbl d"
  "schedule_order_tbl (fst (create_events gen team sid user evs role skip (d, n))) = schedule_order_tbl d"
  by (simp_all add: create_events_def set_last_scheduled_user_id_def insert_event_def
      fold_insert_event_other Let_def)

lemma same_but_cursor_reset:
  assumes "same_but_cursor d1 d2"
  shows "set_last_scheduled_user_id v d1 = set_last_scheduled_user_id v d2"
proof -
  from assms have
    "list_all2 (\<lambda>r1 r2. r2 = r1\<lparr>sr_last_scheduled_user_id := sr_last_scheduled_user_id r2\<rparr>)
       (schedule_tbl d1) (schedule_tbl d2)"
    by (simp add: same_but_cursor_def)
  then have "map (\<lambda>r. r\<lparr>sr_last_scheduled_user_id := v\<rparr>) (schedule_tbl d1) =
             map (\<lambda>r. r\<lparr>sr_last_scheduled_user_id := v\<rparr>) (schedule_tbl d2)"
  proof (induction rule: list_all2_induct)
    case Nil
    then show ?case by simp
  next
    case (Cons r1 rs1 r2 rs2)
    from Cons.hyps(1) have "r2\<lparr>sr_last_scheduled_user_id := v\<rparr> = r1\<lparr>sr_last_scheduled_user_id := v\<rparr>"
      by (cases r1, cases r2) simp
    with Cons.IH show ?case by simp
  qed
  with assms show ?thesis
    by (cases d1, cases d2) (simp add: same_but_cursor_def set_last_scheduled_user_id_def)
qed

lemma cursor_rows_reset:
  "cursor_rows (set_last_scheduled_user_id v d) s = replicate (length (cursor_rows d s)) v"
proof -
  have "map sr_last_scheduled_user_id
          (filter (\<lambda>r. sr_id r = k) (map (\<lambda>r. r\<lparr>sr_last_scheduled_user_id := v\<rparr>) rows)) =
        replicate (length (filter (\<lambda>r. sr_id r = k) rows)) v" for k rows
    by (induction rows) simp_all
  then show ?thesis
    by (simp add: cursor_rows_def set_last_scheduled_user_id_def)
qed

subsection \<open>Generated identifiers are never read\<close>

text \<open>
  The strategy reads the team, role, user and start of events and never a link id, and
  the writer copies none: two runs from databases that are equal up to identifiers
  fail alike or end in databases that are equal up to identifiers, whatever the two
  generators return.
\<close>

lemma erase_ids_fields:
  "ev_team_id (erase_ids e) = ev_team_id e"
  "ev_schedule_id (erase_ids e) = ev_schedule_id e"
  "ev_start (erase_ids e) = ev_start e"
  "ev_end (erase_ids e) = ev_end e"
  "ev_user_id (erase_ids e) = ev_user_id e"
  "ev_role_id (erase_ids e) = ev_role_id e"
  by (simp_all add: erase_ids_def)

lemma erase_ids_new_event:
  "erase_ids (new_event team sid user role link event) =
     new_event team sid user role (map_option (\<lambda>_. []) link) event"
  by (simp add: erase_ids_def new_event_def)

lemma same_but_ids_refl: "same_but_ids d d"
  by (simp add: same_but_ids_def)

lemma qualifying_events_erase:
  assumes "same_but_ids d d'"
  shows "map erase_ids (qualifying_events d s start roster) =
         map erase_ids (qualifying_events d' s start roster)"
proof -
  let ?P = "\<lambda>e. ev_team_id e = team_id s \<and> ev_user_id e \<in> set roster \<and>
                 ev_start e \<le> start \<and> ev_role_id e = role_id s"
  have "map erase_ids (filter ?P xs) = filter ?P (map erase_ids xs)" for xs
    by (simp add: filter_map comp_def erase_ids_fields)
  with assms show ?thesis
    by (simp add: qualifying_events_def same_but_ids_def)
qed

lemma group_by_user_erase: "group_by_user (map erase_ids rows) = group_by_user rows"
  by (simp add: group_by_user_def filter_map comp_def erase_ids_fields)

lemma guess_last_scheduled_user_erase:
  assumes "same_but_ids d d'"
  shows "guess_last_scheduled_user d s start roster = guess_last_scheduled_user d' s start roster"
proof -
  have "group_by_user (qualifying_events d s start roster) =
        group_by_user (map erase_ids (qualifying_events d s start roster))"
    by (simp add: group_by_user_erase)
  also have "\<dots> = group_by_user (map erase_ids (qualifying_events d' s start roster))"
    by (simp add: qualifying_events_erase[OF assms])
  also have "\<dots> = group_by_user (qualifying_events d' s start roster)"
    by (simp add: group_by_user_erase)
  finally show ?thesis
    by (simp add: guess_last_scheduled_user_def)
qed

lemma roster_of_erase: "same_but_ids d d' \<Longrightarrow> roster_of d s = roster_of d' s"
  by (simp add: same_but_ids_def roster_of_def roster_users_def schedule_order_rows_def)

lemma cursor_rows_erase: "same_but_ids d d' \<Longrightarrow> cursor_rows d s = cursor_rows d' s"
  by (simp add: same_but_ids_def cursor_rows_def)

lemma find_next_user_id_erase:
  assumes "same_but_ids d d'"
  shows "find_next_user_id d s fe = find_next_user_id d' s fe"
  unfolding find_next_user_id_def
  by (simp only: roster_of_erase[OF assms] cursor_rows_erase[OF assms]
      guess_last_scheduled_user_erase[OF assms])

lemma create_events_erase:
  assumes "same_but_ids d d'"
  shows "same_but_ids (fst (create_events g team sid user evs role skip (d, n)))
                      (fst (create_events g' team sid user evs role skip (d', n')))"
  using assms
  by (simp add: same_but_ids_def create_events_event_tbl create_events_schedule_tbl
      create_events_other_tbls erase_ids_new_event comp_def)

lemma run_periods_erase:
  assumes "same_but_ids (fst st) (fst st')"
  shows "case run_periods g s ps st of
           Inl e \<Rightarrow> run_periods g' s ps st' = Inl e
         | Inr r \<Rightarrow> (\<exists>r'. run_periods g' s ps st' = Inr r' \<and> same_but_ids (fst r) (fst r'))"
  using assms
proof (induction ps arbitrary: st st')
  case Nil
  then show ?case by simp
next
  case (Cons epoch rest)
  have f: "find_next_user_id (fst st) s epoch = find_next_user_id (fst st') s epoch"
    by (rule find_next_user_id_erase[OF Cons.prems])
  show ?case
  proof (cases "find_next_user_id (fst st') s epoch")
    case (Inl e)
    with f show ?thesis by simp
  next
    case (Inr u)
    show ?thesis
    proof (cases u)
      case None
      with Inr f have
        "run_periods g s (epoch # rest) st = run_periods g s rest st"
        "run_periods g' s (epoch # rest) st' = run_periods g' s rest st'"
        by simp_all
      then show ?thesis
        by (simp only: Cons.IH[OF Cons.prems])
    next
      case (Some user_id)
      let ?c = "create_events g (team_id s) (schedule_id s) user_id epoch (role_id s) True st"
      let ?c' = "create_events g' (team_id s) (schedule_id s) user_id epoch (role_id s) True st'"
      have "same_but_ids (fst ?c) (fst ?c')"
        using create_events_erase[OF Cons.prems, of g "team_id s" "schedule_id s" user_id epoch
            "role_id s" True "snd st" g' "snd st'"]
        by simp
      note ih = Cons.IH[OF this]
      from Inr Some f have
        "run_periods g s (epoch # rest) st = run_periods g s rest ?c"
        "run_periods g' s (epoch # rest) st' = run_periods g' s rest ?c'"
        by simp_all
      then show ?thesis
        by (simp only: ih)
    qed
  qed
qed

subsection \<open>The scenarios, evaluated\<close>

lemma rr_cursor_rows: "cursor_rows rr_db rr_schedule = [None]"
  by code_simp

lemma rr_roster: "roster_of rr_db rr_schedule = [101, 102, 103]"
  by code_simp

lemma rr_guess: "guess_last_scheduled_user rr_db rr_schedule 3000 [101, 102, 103] = Some 101"
  by code_simp

lemma rr_fresh_roster: "roster_of rr_db_fresh rr_schedule = [101, 102, 103]"
  by code_simp

lemma rr_stale_roster: "roster_of rr_db_stale rr_schedule = [101, 102, 103]"
  by code_simp

lemma rr_schedule_row:
  "filter (\<lambda>r. sr_id r = schedule_id rr_schedule) (schedule_tbl rr_db) =
     [\<lparr>sr_id = 1, sr_team_id = 10, sr_roster_id = 20, sr_role_id = 30,
       sr_auto_populate_threshold = 28, sr_advanced_mode = False,
       sr_last_scheduled_user_id = None\<rparr>]"
  by (simp add: rr_db_def rr_schedule_def)

lemma rr_fresh_schedule_row:
  "filter (\<lambda>r. sr_id r = schedule_id rr_schedule) (schedule_tbl rr_db_fresh) =
     [\<lparr>sr_id = 1, sr_team_id = 10, sr_roster_id = 20, sr_role_id = 30,
       sr_auto_populate_threshold = 28, sr_advanced_mode = False,
       sr_last_scheduled_user_id = None\<rparr>]"
  by (simp add: rr_db_fresh_def rr_db_def rr_schedule_def)

lemma rr_stale_schedule_row:
  "filter (\<lambda>r. sr_id r = schedule_id rr_schedule) (schedule_tbl rr_db_stale) =
     [\<lparr>sr_id = 1, sr_team_id = 10, sr_roster_id = 20, sr_role_id = 30,
       sr_auto_populate_threshold = 28, sr_advanced_mode = False,
       sr_last_scheduled_user_id = Some 103\<rparr>]"
  by (simp add: rr_db_stale_def set_last_scheduled_user_id_def rr_db_def rr_schedule_def)

lemma rr_events:
  "event_tbl rr_db =
     [\<lparr>ev_team_id = 10, ev_schedule_id = None, ev_start = 1000, ev_end = 2000,
       ev_user_id = 101, ev_role_id = 30, ev_link_id = None\<rparr>]"
  by (simp add: rr_db_def)

section \<open>The claims\<close>

text \<open>
  C1 (preview/populate equivalence). For every schedule, start, clock reading and
  database, and whatever link ids the two calls generate: a preview request leaves the
  persisted database as it was; if it fails, the populate request that follows fails
  with the same error and persists nothing; if it returns an event list, the populate
  request succeeds and the event table it persists is that list up to the generated
  identifiers.
\<close>

theorem preview_populate_equivalence:
  "snd (preview_request g1 now s start (d, n1)) = d \<and>
   (case fst (preview_request g1 now s start (d, n1)) of
      Inl e \<Rightarrow> populate_request g2 now s start (d, n2) = (Inl e, d)
    | Inr evs \<Rightarrow>
        fst (populate_request g2 now s start (d, n2)) = Inr () \<and>
        map erase_ids evs =
          map erase_ids (event_tbl (snd (populate_request g2 now s start (d, n2)))))"
proof (cases "start < now - auto_populate_threshold s * 86400")
  case True
  then show ?thesis
    by (simp add: preview_request_def preview_def default_preview_def populate_request_def
        populate_def default_populate_def)
next
  case False
  let ?d0 = "set_last_scheduled_user_id None d"
  let ?ps = "expand_periods s start"
  have pv: "fst (preview_request g1 now s start (d, n1)) =
      (case run_periods g1 s ?ps (?d0, n1) of Inl e \<Rightarrow> Inl e | Inr st' \<Rightarrow> Inr (event_tbl (fst st')))"
    using False
    by (simp add: preview_request_def preview_def default_preview_def default_populate_def)
  have pp: "populate_request g2 now s start (d, n2) =
      (case run_periods g2 s ?ps (?d0, n2) of Inl e \<Rightarrow> (Inl e, d) | Inr st' \<Rightarrow> (Inr (), fst st'))"
    using False
    by (simp add: populate_request_def populate_def default_populate_def split: sum.splits)
  have rel: "case run_periods g1 s ?ps (?d0, n1) of
           Inl e \<Rightarrow> run_periods g2 s ?ps (?d0, n2) = Inl e
         | Inr r \<Rightarrow> (\<exists>r'. run_periods g2 s ?ps (?d0, n2) = Inr r' \<and> same_but_ids (fst r) (fst r'))"
    by (rule run_periods_erase) (simp add: same_but_ids_refl)
  have 1: "snd (preview_request g1 now s start (d, n1)) = d"
    by (simp add: preview_request_def)
  have 2: "case fst (preview_request g1 now s start (d, n1)) of
      Inl e \<Rightarrow> populate_request g2 now s start (d, n2) = (Inl e, d)
    | Inr evs \<Rightarrow>
        fst (populate_request g2 now s start (d, n2)) = Inr () \<and>
        map erase_ids evs =
          map erase_ids (event_tbl (snd (populate_request g2 now s start (d, n2))))"
  proof (cases "run_periods g1 s ?ps (?d0, n1)")
    case (Inl e)
    with rel have "run_periods g2 s ?ps (?d0, n2) = Inl e" by simp
    with Inl show ?thesis by (simp add: pv pp)
  next
    case (Inr r)
    with rel obtain r' where r': "run_periods g2 s ?ps (?d0, n2) = Inr r'"
      and s: "same_but_ids (fst r) (fst r')" by auto
    from s have "map erase_ids (event_tbl (fst r)) = map erase_ids (event_tbl (fst r'))"
      by (simp add: same_but_ids_def)
    with Inr r' show ?thesis by (simp add: pv pp)
  qed
  from 1 2 show ?thesis by blast
qed

text \<open>
  C1, at a fortnight of two half-day segments a week: preview and populate draw
  different link ids and agree on everything else.
\<close>

theorem preview_populate_equivalence_witness:
  "(\<exists>evs. fst (preview_request link_b 0 split_schedule 3000 (rr_db, 5)) = Inr evs \<and>
      map ev_link_id evs =
        [None, Some ''bbbbbb'', Some ''bbbbbb'', Some ''bbbbbbb'', Some ''bbbbbbb''] \<and>
      map erase_ids evs =
        map erase_ids (event_tbl (snd (populate_request link_a 0 split_schedule 3000 (rr_db, 0))))) \<and>
   map ev_link_id (event_tbl (snd (populate_request link_a 0 split_schedule 3000 (rr_db, 0)))) =
     [None, Some ''a'', Some ''a'', Some ''aa'', Some ''aa'']"
proof -
  let ?pv = "fst (preview_request link_b 0 split_schedule 3000 (rr_db, 5))"
  have "map_sum id (map ev_link_id) ?pv =
      Inr [None, Some ''bbbbbb'', Some ''bbbbbb'', Some ''bbbbbbb'', Some ''bbbbbbb'']"
    by code_simp
  then obtain evs where evs: "?pv = Inr evs"
    and l: "map ev_link_id evs =
        [None, Some ''bbbbbb'', Some ''bbbbbb'', Some ''bbbbbbb'', Some ''bbbbbbb'']"
    by (cases ?pv) auto
  from preview_populate_equivalence[of link_b 0 split_schedule 3000 rr_db 5 link_a 0] evs
  have e: "map erase_ids evs =
        map erase_ids (event_tbl (snd (populate_request link_a 0 split_schedule 3000 (rr_db, 0))))"
    by simp
  have p: "map ev_link_id (event_tbl (snd (populate_request link_a 0 split_schedule 3000 (rr_db, 0)))) =
     [None, Some ''a'', Some ''a'', Some ''aa'', Some ''aa'']"
    by code_simp
  have "\<exists>evs. ?pv = Inr evs \<and>
      map ev_link_id evs =
        [None, Some ''bbbbbb'', Some ''bbbbbb'', Some ''bbbbbbb'', Some ''bbbbbbb''] \<and>
      map erase_ids evs =
        map erase_ids (event_tbl (snd (populate_request link_a 0 split_schedule 3000 (rr_db, 0))))"
    by (intro exI[of _ evs] conjI) (rule evs l e)+
  then show ?thesis
    by (rule conjI) (rule p)
qed


text \<open>
  C2 (idempotent coverage). The claim: a segment whose exact (team, role, start, end)
  already has an event gets no new event when populate runs. The round-robin
  \<^verbatim>\<open>create_events\<close> accepts \<^verbatim>\<open>skip_match=True\<close> and never reads it: every INSERT
  is unconditional. In the scenario of the skip test the first week is covered by a
  hand-made event of user 103; \<^verbatim>\<open>create_events\<close>, and a whole populate run, leave that
  row as it was and add a second row for the same team, role, start and end.
\<close>

theorem create_events_duplicates_covered_segment:
  "filter (\<lambda>e. ev_team_id e = 10 \<and> ev_role_id e = 30 \<and> ev_start e = 3000 \<and> ev_end e = 607800)
     (event_tbl covered_db) =
     [\<lparr>ev_team_id = 10, ev_schedule_id = None, ev_start = 3000, ev_end = 607800,
       ev_user_id = 103, ev_role_id = 30, ev_link_id = None\<rparr>] \<and>
   filter (\<lambda>e. ev_team_id e = 10 \<and> ev_role_id e = 30 \<and> ev_start e = 3000 \<and> ev_end e = 607800)
     (event_tbl (fst (create_events link_a 10 1 101 [\<lparr>fe_start = 3000, fe_end = 607800\<rparr>] 30 True
        (covered_db, 0)))) =
     [\<lparr>ev_team_id = 10, ev_schedule_id = None, ev_start = 3000, ev_end = 607800,
       ev_user_id = 103, ev_role_id = 30, ev_link_id = None\<rparr>,
      \<lparr>ev_team_id = 10, ev_schedule_id = Some 1, ev_start = 3000, ev_end = 607800,
       ev_user_id = 101, ev_role_id = 30, ev_link_id = None\<rparr>] \<and>
   filter (\<lambda>e. ev_team_id e = 10 \<and> ev_role_id e = 30 \<and> ev_start e = 3000 \<and> ev_end e = 607800)
     (event_tbl (snd (populate_request link_a 0 rr_schedule 3000 (covered_db, 0)))) =
     [\<lparr>ev_team_id = 10, ev_schedule_id = None, ev_start = 3000, ev_end = 607800,
       ev_user_id = 103, ev_role_id = 30, ev_link_id = None\<rparr>,
      \<lparr>ev_team_id = 10, ev_schedule_id = Some 1, ev_start = 3000, ev_end = 607800,
       ev_user_id = 101, ev_role_id = 30, ev_link_id = None\<rparr>]"
proof (intro conjI)
  show "filter (\<lambda>e. ev_team_id e = 10 \<and> ev_role_id e = 30 \<and> ev_start e = 3000 \<and> ev_end e = 607800)
     (event_tbl covered_db) =
     [\<lparr>ev_team_id = 10, ev_schedule_id = None, ev_start = 3000, ev_end = 607800,
       ev_user_id = 103, ev_role_id = 30, ev_link_id = None\<rparr>]"
    by code_simp
  show "filter (\<lambda>e. ev_team_id e = 10 \<and> ev_role_id e = 30 \<and> ev_start e = 3000 \<and> ev_end e = 607800)
     (event_tbl (fst (create_events link_a 10 1 101 [\<lparr>fe_start = 3000, fe_end = 607800\<rparr>] 30 True
        (covered_db, 0)))) =
     [\<lparr>ev_team_id = 10, ev_schedule_id = None, ev_start = 3000, ev_end = 607800,
       ev_user_id = 103, ev_role_id = 30, ev_link_id = None\<rparr>,
      \<lparr>ev_team_id = 10, ev_schedule_id = Some 1, ev_start = 3000, ev_end = 607800,
       ev_user_id = 101, ev_role_id = 30, ev_link_id = None\<rparr>]"
    by code_simp
  show "filter (\<lambda>e. ev_team_id e = 10 \<and> ev_role_id e = 30 \<and> ev_start e = 3000 \<and> ev_end e = 607800)
     (event_tbl (snd (populate_request link_a 0 rr_schedule 3000 (covered_db, 0)))) =
     [\<lparr>ev_team_id = 10, ev_schedule_id = None, ev_start = 3000, ev_end = 607800,
       ev_user_id = 103, ev_role_id = 30, ev_link_id = None\<rparr>,
      \<lparr>ev_team_id = 10, ev_schedule_id = Some 1, ev_start = 3000, ev_end = 607800,
       ev_user_id = 101, ev_role_id = 30, ev_link_id = None\<rparr>]"
    by code_simp
qed

text \<open>
  C3 (cursor-free determinism). Whatever the base class does, populate and preview run
  it on one and the same database: the one they were given with the cursor of every
  schedule row set to NULL and nothing else changed, so the cursor the strategy reads
  for the schedule is unknown. Hence two databases that differ only in stored
  cursors give the same run.
\<close>

theorem cursor_reset_determinism:
  assumes "same_but_cursor d1 d2"
  shows "populate super_populate s start (d1, n) =
           super_populate s start (populate (\<lambda>_ _ st. st) s start (d1, n)) \<and>
         preview super_preview s start (d1, n) =
           super_preview s start (preview (\<lambda>_ _ st. st) s start (d1, n)) \<and>
         preview (\<lambda>_ _ st. st) s start (d1, n) = populate (\<lambda>_ _ st. st) s start (d1, n) \<and>
         snd (populate (\<lambda>_ _ st. st) s start (d1, n)) = n \<and>
         same_but_cursor d1 (fst (populate (\<lambda>_ _ st. st) s start (d1, n))) \<and>
         map sr_last_scheduled_user_id (schedule_tbl (fst (populate (\<lambda>_ _ st. st) s start (d1, n)))) =
           replicate (length (schedule_tbl d1)) None \<and>
         cursor_rows (fst (populate (\<lambda>_ _ st. st) s start (d1, n))) s =
           replicate (length (filter (\<lambda>r. sr_id r = schedule_id s) (schedule_tbl d1))) None \<and>
         populate super_populate s start (d1, n) = populate super_populate s start (d2, n) \<and>
         preview super_preview s start (d1, n) = preview super_preview s start (d2, n)"
proof -
  let ?h = "populate (\<lambda>_ _ st. st) s start (d1, n)"
  have h: "?h = (set_last_scheduled_user_id None d1, n)"
    by (simp add: populate_def)
  have h': "preview (\<lambda>_ _ st. st) s start (d1, n) = (set_last_scheduled_user_id None d1, n)"
    by (simp add: preview_def)
  have 1: "populate super_populate s start (d1, n) = super_populate s start ?h"
    by (simp add: populate_def)
  have 2: "preview super_preview s start (d1, n) =
           super_preview s start (preview (\<lambda>_ _ st. st) s start (d1, n))"
    by (simp add: preview_def)
  have 3: "preview (\<lambda>_ _ st. st) s start (d1, n) = ?h"
    by (simp only: h h')
  have 4: "snd ?h = n"
    by (simp add: h)
  have "list_all2 (\<lambda>r1 r2. r2 = r1\<lparr>sr_last_scheduled_user_id := sr_last_scheduled_user_id r2\<rparr>)
          rows (map (\<lambda>r. r\<lparr>sr_last_scheduled_user_id := v\<rparr>) rows)" for rows v
    by (induction rows) simp_all
  then have 5: "same_but_cursor d1 (fst ?h)"
    by (simp add: h same_but_cursor_def set_last_scheduled_user_id_def)
  have "map sr_last_scheduled_user_id (map (\<lambda>r. r\<lparr>sr_last_scheduled_user_id := v\<rparr>) rows) =
          replicate (length rows) v" for rows v
    by (induction rows) simp_all
  then have 6: "map sr_last_scheduled_user_id (schedule_tbl (fst ?h)) =
           replicate (length (schedule_tbl d1)) None"
    by (simp add: h set_last_scheduled_user_id_def)
  have 7: "cursor_rows (fst ?h) s =
           replicate (length (filter (\<lambda>r. sr_id r = schedule_id s) (schedule_tbl d1))) None"
    by (simp add: h cursor_rows_reset) (simp add: cursor_rows_def)
  have "set_last_scheduled_user_id None d1 = set_last_scheduled_user_id None d2"
    by (rule same_but_cursor_reset[OF assms])
  then have 8: "populate super_populate s start (d1, n) = populate super_populate s start (d2, n)"
    and 9: "preview super_preview s start (d1, n) = preview super_preview s start (d2, n)"
    by (simp_all add: populate_def preview_def)
  from 1 2 3 4 5 6 7 8 9 show ?thesis
    by (intro conjI)
qed

text \<open>
  C3, at the round-robin scenario: with the cursors left at user 103 the base class
  still receives NULL cursors, and populate computes what it computes without them.
\<close>

theorem cursor_reset_determinism_witness:
  "same_but_cursor rr_db rr_db_stale \<and>
   map sr_last_scheduled_user_id (schedule_tbl rr_db_stale) = [Some 103, Some 103] \<and>
   map sr_last_scheduled_user_id (schedule_tbl rr_db) = [None, Some 201] \<and>
   map sr_last_scheduled_user_id
     (schedule_tbl (fst (populate (\<lambda>_ _ st. st) rr_schedule 3000 (rr_db_stale, 0)))) = [None, None] \<and>
   populate (default_populate link_a 0) rr_schedule 3000 (rr_db_stale, 0) =
   populate (default_populate link_a 0) rr_schedule 3000 (rr_db, 0)"
proof -
  have s: "same_but_cursor rr_db rr_db_stale"
    by (simp add: same_but_cursor_def rr_db_stale_def set_last_scheduled_user_id_def rr_db_def)
  have s': "same_but_cursor rr_db_stale rr_db"
    by (simp add: same_but_cursor_def rr_db_stale_def set_last_scheduled_user_id_def rr_db_def)
  have c: "map sr_last_scheduled_user_id (schedule_tbl rr_db_stale) = [Some 103, Some 103]"
    by code_simp
  have c': "map sr_last_scheduled_user_id (schedule_tbl rr_db) = [None, Some 201]"
    by code_simp
  have l: "length (schedule_tbl rr_db_stale) = 2"
    by code_simp
  note t = cursor_reset_determinism[OF s', of "default_populate link_a 0" rr_schedule 3000 0
      "default_preview link_a 0"]
  from t have 1: "map sr_last_scheduled_user_id
     (schedule_tbl (fst (populate (\<lambda>_ _ st. st) rr_schedule 3000 (rr_db_stale, 0)))) =
       replicate (length (schedule_tbl rr_db_stale)) None"
    by blast
  from t have 2: "populate (default_populate link_a 0) rr_schedule 3000 (rr_db_stale, 0) =
   populate (default_populate link_a 0) rr_schedule 3000 (rr_db, 0)"
    by blast
  from 1 have 3: "map sr_last_scheduled_user_id
     (schedule_tbl (fst (populate (\<lambda>_ _ st. st) rr_schedule 3000 (rr_db_stale, 0)))) = [None, None]"
    by (simp add: l numeral_2_eq_2)
  from s c c' 3 2 show ?thesis
    by (intro conjI)
qed

text \<open>
  C4 (frame of populate). The claim: populate mutates the cursor of the schedule it
  populates and no other schedule. The three UPDATE statements of the scheduler have
  no WHERE clause, while the SELECT that reads the cursor has \<^verbatim>\<open>WHERE id = %s\<close>.
  Populating schedule 1 nulls the cursor of schedule 2 (which was user 201) before the
  base class runs, and every \<^verbatim>\<open>create_events\<close> then writes the chosen user of schedule 1
  into it.
\<close>

theorem populate_writes_every_cursor:
  "map (\<lambda>r. (sr_id r, sr_last_scheduled_user_id r)) (schedule_tbl rr_db) =
     [(1, None), (2, Some 201)] \<and>
   map (\<lambda>r. (sr_id r, sr_last_scheduled_user_id r))
     (schedule_tbl (fst (populate (\<lambda>s t st. st) rr_schedule 3000 (rr_db, 0)))) =
     [(1, None), (2, None)] \<and>
   map (\<lambda>r. (sr_id r, sr_last_scheduled_user_id r))
     (schedule_tbl (fst (create_events link_a 10 1 102 [\<lparr>fe_start = 3000, fe_end = 607800\<rparr>] 30
        True (rr_db, 0)))) =
     [(1, Some 102), (2, Some 102)] \<and>
   map (\<lambda>r. (sr_id r, sr_last_scheduled_user_id r))
     (schedule_tbl (snd (populate_request link_a 0 rr_schedule 3000 (rr_db, 0)))) =
     [(1, Some 102), (2, Some 102)]"
proof (intro conjI)
  show "map (\<lambda>r. (sr_id r, sr_last_scheduled_user_id r)) (schedule_tbl rr_db) =
     [(1, None), (2, Some 201)]"
    by code_simp
  show "map (\<lambda>r. (sr_id r, sr_last_scheduled_user_id r))
     (schedule_tbl (fst (populate (\<lambda>s t st. st) rr_schedule 3000 (rr_db, 0)))) =
     [(1, None), (2, None)]"
    by code_simp
  show "map (\<lambda>r. (sr_id r, sr_last_scheduled_user_id r))
     (schedule_tbl (fst (create_events link_a 10 1 102 [\<lparr>fe_start = 3000, fe_end = 607800\<rparr>] 30
        True (rr_db, 0)))) =
     [(1, Some 102), (2, Some 102)]"
    by code_simp
  show "map (\<lambda>r. (sr_id r, sr_last_scheduled_user_id r))
     (schedule_tbl (snd (populate_request link_a 0 rr_schedule 3000 (rr_db, 0)))) =
     [(1, Some 102), (2, Some 102)]"
    by code_simp
qed

text \<open>
  C5 (round-robin selection). For a schedule with a row in the schedule table and a
  non-empty roster. When the cursor stored in that row names a roster member, the user
  selected is the roster member at index \<open>(last_idx + 1) mod N\<close>, \<open>last_idx\<close> being the
  first index of that member. When the stored cursor is NULL or names nobody of the
  roster, and the event table holds no event of the schedule's team and role, of a
  roster member, starting at or before the earliest segment start, the user selected
  is \<open>roster[0]\<close>. When it holds such events, the user selected is at index
  \<open>(last_idx + 1) mod N\<close> for the owner of one with the greatest start.
\<close>

theorem find_next_user_id_round_robin:
  assumes "filter (\<lambda>r. sr_id r = schedule_id s) (schedule_tbl d) = row # rest"
    and "roster_of d s = roster" and "roster \<noteq> []"
  shows "(\<forall>u. sr_last_scheduled_user_id row = Some u \<and> u \<in> set roster \<longrightarrow>
            (\<exists>i<length roster. roster ! i = u \<and> (\<forall>j<i. roster ! j \<noteq> u) \<and>
               find_next_user_id d s fe = Inr (Some (roster ! ((i + 1) mod length roster))))) \<and>
         ((sr_last_scheduled_user_id row = None \<or>
           (\<exists>u. sr_last_scheduled_user_id row = Some u \<and> u \<notin> set roster)) \<and> fe \<noteq> [] \<and>
          \<not> (\<exists>e \<in> set (event_tbl d).
                ev_team_id e = team_id s \<and> ev_role_id e = role_id s \<and>
                ev_user_id e \<in> set roster \<and> ev_start e \<le> Min (fe_start ` set fe)) \<longrightarrow>
            find_next_user_id d s fe = Inr (Some (roster ! 0))) \<and>
         ((sr_last_scheduled_user_id row = None \<or>
           (\<exists>u. sr_last_scheduled_user_id row = Some u \<and> u \<notin> set roster)) \<and> fe \<noteq> [] \<and>
          (\<exists>e \<in> set (event_tbl d).
                ev_team_id e = team_id s \<and> ev_role_id e = role_id s \<and>
                ev_user_id e \<in> set roster \<and> ev_start e \<le> Min (fe_start ` set fe)) \<longrightarrow>
            (\<exists>e \<in> set (event_tbl d).
               ev_team_id e = team_id s \<and> ev_role_id e = role_id s \<and>
               ev_user_id e \<in> set roster \<and> ev_start e \<le> Min (fe_start ` set fe) \<and>
               (\<forall>e' \<in> set (event_tbl d).
                  ev_team_id e' = team_id s \<and> ev_role_id e' = role_id s \<and>
                  ev_user_id e' \<in> set roster \<and> ev_start e' \<le> Min (fe_start ` set fe)
                  \<longrightarrow> ev_start e' \<le> ev_start e) \<and>
               (\<exists>i<length roster. roster ! i = ev_user_id e \<and> (\<forall>j<i. roster ! j \<noteq> ev_user_id e) \<and>
                  find_next_user_id d s fe = Inr (Some (roster ! ((i + 1) mod length roster))))))"
proof -
  let ?c = "sr_last_scheduled_user_id row"
  let ?start = "Min (fe_start ` set fe)"
  let ?q = "\<lambda>e. ev_team_id e = team_id s \<and> ev_role_id e = role_id s \<and>
                ev_user_id e \<in> set roster \<and> ev_start e \<le> ?start"
  have rows: "cursor_rows d s = ?c # map sr_last_scheduled_user_id rest"
    by (simp add: cursor_rows_def assms(1))
  have r: "roster_of d s \<noteq> []" using assms(2,3) by simp
  have unknown: "not_in_roster ?c (roster_of d s) \<longleftrightarrow>
      (?c = None \<or> (\<exists>u. ?c = Some u \<and> u \<notin> set roster))"
    by (cases ?c) (simp_all add: not_in_roster_def assms(2))
  have stored: "\<exists>i<length roster. roster ! i = u \<and> (\<forall>j<i. roster ! j \<noteq> u) \<and>
               find_next_user_id d s fe = Inr (Some (roster ! ((i + 1) mod length roster)))"
    if u: "?c = Some u \<and> u \<in> set roster" for u
  proof -
    from u have "\<not> not_in_roster ?c (roster_of d s)"
      by (simp add: not_in_roster_def assms(2))
    from find_next_user_id_stored[OF rows r this, of fe] u
    have "find_next_user_id d s fe = next_after roster u"
      by (simp add: assms(2))
    with next_after_in[of u roster] u show ?thesis by auto
  qed
  have inferred: "find_next_user_id d s fe =
      (case guess_last_scheduled_user d s ?start roster of
         None \<Rightarrow> Inr (Some (roster ! 0))
       | Some u \<Rightarrow> next_after roster u)"
    if n: "?c = None \<or> (\<exists>u. ?c = Some u \<and> u \<notin> set roster)" and fe: "fe \<noteq> []"
  proof -
    from n have n': "not_in_roster ?c (roster_of d s)" by (simp only: unknown)
    have m: "py_min (map fe_start fe) = Inr ?start"
      using py_min_nonempty[of "map fe_start fe"] fe by simp
    show ?thesis
      using find_next_user_id_guess[OF rows r n', of fe] m assms(2)
      by (simp split: option.splits)
  qed
  have none: "guess_last_scheduled_user d s ?start roster = None \<longleftrightarrow>
      \<not> (\<exists>e \<in> set (event_tbl d). ?q e)"
    by (auto simp: guess_None qualifying_events_def filter_empty_conv)
  have empty: "find_next_user_id d s fe = Inr (Some (roster ! 0))"
    if "?c = None \<or> (\<exists>u. ?c = Some u \<and> u \<notin> set roster)" and "fe \<noteq> []"
      and "\<not> (\<exists>e \<in> set (event_tbl d). ?q e)"
    using inferred[OF that(1,2)] that(3) none by simp
  have calendar: "\<exists>e \<in> set (event_tbl d). ?q e \<and>
               (\<forall>e' \<in> set (event_tbl d). ?q e' \<longrightarrow> ev_start e' \<le> ev_start e) \<and>
               (\<exists>i<length roster. roster ! i = ev_user_id e \<and> (\<forall>j<i. roster ! j \<noteq> ev_user_id e) \<and>
                  find_next_user_id d s fe = Inr (Some (roster ! ((i + 1) mod length roster))))"
    if "?c = None \<or> (\<exists>u. ?c = Some u \<and> u \<notin> set roster)" and "fe \<noteq> []"
      and "\<exists>e \<in> set (event_tbl d). ?q e"
  proof -
    from that(3) none obtain u where g: "guess_last_scheduled_user d s ?start roster = Some u"
      by (cases "guess_last_scheduled_user d s ?start roster") auto
    from guess_Some[OF g] obtain e where e: "e \<in> set (qualifying_events d s ?start roster)"
      "ev_user_id e = u" "\<forall>e' \<in> set (qualifying_events d s ?start roster). ev_start e' \<le> ev_start e"
      by blast
    from e(1) have e1: "e \<in> set (event_tbl d)" "?q e"
      by (simp_all add: qualifying_events_def)
    from e(3) have e3: "\<forall>e' \<in> set (event_tbl d). ?q e' \<longrightarrow> ev_start e' \<le> ev_start e"
      by (simp add: qualifying_events_def)
    from inferred[OF that(1,2)] g have f: "find_next_user_id d s fe = next_after roster u"
      by simp
    from next_after_in[OF guess_in_roster[OF g]] f e(2)
    have "\<exists>i<length roster. roster ! i = ev_user_id e \<and> (\<forall>j<i. roster ! j \<noteq> ev_user_id e) \<and>
                  find_next_user_id d s fe = Inr (Some (roster ! ((i + 1) mod length roster)))"
      by simp
    with e1 e3 show ?thesis by blast
  qed
  show ?thesis
  proof (intro conjI allI impI)
    fix u assume "?c = Some u \<and> u \<in> set roster"
    then show "\<exists>i<length roster. roster ! i = u \<and> (\<forall>j<i. roster ! j \<noteq> u) \<and>
               find_next_user_id d s fe = Inr (Some (roster ! ((i + 1) mod length roster)))"
      by (rule stored)
  next
    assume a: "(?c = None \<or> (\<exists>u. ?c = Some u \<and> u \<notin> set roster)) \<and> fe \<noteq> [] \<and>
          \<not> (\<exists>e \<in> set (event_tbl d). ?q e)"
    show "find_next_user_id d s fe = Inr (Some (roster ! 0))"
      by (rule empty) (use a in blast)+
  next
    assume a: "(?c = None \<or> (\<exists>u. ?c = Some u \<and> u \<notin> set roster)) \<and> fe \<noteq> [] \<and>
          (\<exists>e \<in> set (event_tbl d). ?q e)"
    have "\<exists>e \<in> set (event_tbl d). ?q e \<and>
               (\<forall>e' \<in> set (event_tbl d). ?q e' \<longrightarrow> ev_start e' \<le> ev_start e) \<and>
               (\<exists>i<length roster. roster ! i = ev_user_id e \<and> (\<forall>j<i. roster ! j \<noteq> ev_user_id e) \<and>
                  find_next_user_id d s fe = Inr (Some (roster ! ((i + 1) mod length roster))))"
      by (rule calendar) (use a in blast)+
    then show "\<exists>e \<in> set (event_tbl d).
               ev_team_id e = team_id s \<and> ev_role_id e = role_id s \<and>
               ev_user_id e \<in> set roster \<and> ev_start e \<le> Min (fe_start ` set fe) \<and>
               (\<forall>e' \<in> set (event_tbl d).
                  ev_team_id e' = team_id s \<and> ev_role_id e' = role_id s \<and>
                  ev_user_id e' \<in> set roster \<and> ev_start e' \<le> Min (fe_start ` set fe)
                  \<longrightarrow> ev_start e' \<le> ev_start e) \<and>
               (\<exists>i<length roster. roster ! i = ev_user_id e \<and> (\<forall>j<i. roster ! j \<noteq> ev_user_id e) \<and>
                  find_next_user_id d s fe = Inr (Some (roster ! ((i + 1) mod length roster))))"
      by (simp add: conj_assoc)
  qed
qed

text \<open>
  C5, at the round-robin scenario: with an empty calendar the first of the roster, 101,
  is selected; with the earlier event of 101 in the calendar, 102; with the cursor
  stored at 103, the last of the roster, the selection wraps around to 101.
\<close>

theorem find_next_user_id_round_robin_witness:
  "event_tbl rr_db_fresh = [] \<and>
   find_next_user_id rr_db_fresh rr_schedule [\<lparr>fe_start = 3000, fe_end = 607800\<rparr>] = Inr (Some 101) \<and>
   map ev_user_id (event_tbl rr_db) = [101] \<and>
   find_next_user_id rr_db rr_schedule [\<lparr>fe_start = 3000, fe_end = 607800\<rparr>] = Inr (Some 102) \<and>
   cursor_rows rr_db_stale rr_schedule = [Some 103] \<and>
   find_next_user_id rr_db_stale rr_schedule [\<lparr>fe_start = 3000, fe_end = 607800\<rparr>] = Inr (Some 101)"
proof -
  let ?fe = "[\<lparr>fe_start = 3000, fe_end = 607800\<rparr>]"
  let ?r = "[101, 102, 103] :: int list"
  have ne: "?r \<noteq> []" and fe: "?fe \<noteq> []" by simp_all
  have idx: "i = 0" if "i < length ?r" "?r ! i = 101" for i
  proof -
    from that(1) have "i = 0 \<or> i = 1 \<or> i = 2" by auto
    with that(2) show ?thesis by auto
  qed
  have idx3: "i = 2" if "i < length ?r" "?r ! i = 103" for i
  proof -
    from that(1) have "i = 0 \<or> i = 1 \<or> i = 2" by auto
    with that(2) show ?thesis by auto
  qed
  have e0: "event_tbl rr_db_fresh = []"
    by (simp add: rr_db_fresh_def)
  note fresh = find_next_user_id_round_robin[OF rr_fresh_schedule_row rr_fresh_roster ne, of ?fe]
  have 1: "find_next_user_id rr_db_fresh rr_schedule ?fe = Inr (Some 101)"
    using conjunct1[OF conjunct2[OF fresh]] by (simp add: e0)
  have u: "map ev_user_id (event_tbl rr_db) = [101]"
    by (simp add: rr_events)
  note found = find_next_user_id_round_robin[OF rr_schedule_row rr_roster ne, of ?fe]
  have "\<exists>i<length ?r. ?r ! i = 101 \<and> (\<forall>j<i. ?r ! j \<noteq> 101) \<and>
          find_next_user_id rr_db rr_schedule ?fe = Inr (Some (?r ! ((i + 1) mod length ?r)))"
    using conjunct2[OF conjunct2[OF found]]
    by (simp add: rr_events rr_schedule_def)
  then obtain i where "i < length ?r" "?r ! i = 101"
    and f: "find_next_user_id rr_db rr_schedule ?fe = Inr (Some (?r ! ((i + 1) mod length ?r)))"
    by blast
  with idx[of i] have 2: "find_next_user_id rr_db rr_schedule ?fe = Inr (Some 102)"
    by simp
  have c: "cursor_rows rr_db_stale rr_schedule = [Some 103]"
    by (simp add: cursor_rows_def rr_stale_schedule_row)
  note stale = find_next_user_id_round_robin[OF rr_stale_schedule_row rr_stale_roster ne, of ?fe]
  have "\<exists>i<length ?r. ?r ! i = 103 \<and> (\<forall>j<i. ?r ! j \<noteq> 103) \<and>
          find_next_user_id rr_db_stale rr_schedule ?fe = Inr (Some (?r ! ((i + 1) mod length ?r)))"
    using conjunct1[OF stale] by simp
  then obtain k where "k < length ?r" "?r ! k = 103"
    and g: "find_next_user_id rr_db_stale rr_schedule ?fe = Inr (Some (?r ! ((k + 1) mod length ?r)))"
    by blast
  with idx3[of k] have 3: "find_next_user_id rr_db_stale rr_schedule ?fe = Inr (Some 101)"
    by simp
  from e0 1 u 2 c 3 show ?thesis
    by (intro conjI)
qed

text \<open>
  C6 (calendar inference). When the stored cursor is unknown or names nobody of the
  roster, the last-scheduled user is whatever \<^verbatim>\<open>guess_last_scheduled_user\<close> returns for
  the earliest start among the segments being processed: nobody exactly when no event
  of this team and role, of a roster member, starts at or before that instant;
  otherwise a member of the roster, in rotation, who owns such an event with the
  greatest start of all such events.
\<close>

theorem calendar_inference:
  assumes "cursor_rows d s = c # cs" and "roster_of d s = roster" and "roster \<noteq> []"
    and "not_in_roster c roster" and "fe \<noteq> []"
  shows "find_next_user_id d s fe =
           (case guess_last_scheduled_user d s (Min (fe_start ` set fe)) roster of
              None \<Rightarrow> Inr (Some (roster ! 0))
            | Some u \<Rightarrow> next_after roster u) \<and>
         (guess_last_scheduled_user d s (Min (fe_start ` set fe)) roster = None \<longleftrightarrow>
            \<not> (\<exists>e \<in> set (event_tbl d). ev_team_id e = team_id s \<and> ev_role_id e = role_id s \<and>
                  ev_user_id e \<in> set roster \<and> ev_start e \<le> Min (fe_start ` set fe))) \<and>
         (\<forall>u. guess_last_scheduled_user d s (Min (fe_start ` set fe)) roster = Some u \<longrightarrow>
            u \<in> set roster \<and> u \<in> roster_users d s \<and>
            (\<exists>e \<in> set (event_tbl d).
               ev_user_id e = u \<and> ev_team_id e = team_id s \<and> ev_role_id e = role_id s \<and>
               ev_start e \<le> Min (fe_start ` set fe) \<and>
               (\<forall>e' \<in> set (event_tbl d).
                  ev_team_id e' = team_id s \<and> ev_role_id e' = role_id s \<and>
                  ev_user_id e' \<in> set roster \<and> ev_start e' \<le> Min (fe_start ` set fe)
                  \<longrightarrow> ev_start e' \<le> ev_start e)))"
proof (intro conjI allI impI)
  let ?start = "Min (fe_start ` set fe)"
  have m: "py_min (map fe_start fe) = Inr ?start"
    using py_min_nonempty[of "map fe_start fe"] assms(5) by simp
  from assms have n: "not_in_roster c (roster_of d s)" "roster_of d s \<noteq> []" by simp_all
  show "find_next_user_id d s fe =
      (case guess_last_scheduled_user d s ?start roster of
         None \<Rightarrow> Inr (Some (roster ! 0))
       | Some u \<Rightarrow> next_after roster u)"
    using find_next_user_id_guess[OF assms(1) n(2) n(1), of fe] m assms(2)
    by (simp split: option.splits)
  show "guess_last_scheduled_user d s ?start roster = None \<longleftrightarrow>
            \<not> (\<exists>e \<in> set (event_tbl d). ev_team_id e = team_id s \<and> ev_role_id e = role_id s \<and>
                  ev_user_id e \<in> set roster \<and> ev_start e \<le> ?start)"
    by (auto simp: guess_None qualifying_events_def filter_empty_conv)
next
  let ?start = "Min (fe_start ` set fe)"
  fix u assume g: "guess_last_scheduled_user d s ?start roster = Some u"
  from guess_in_roster[OF g] show "u \<in> set roster" .
  then show "u \<in> roster_users d s"
    using assms(2) by (auto simp: roster_of_def)
  from guess_Some[OF g]
  show "\<exists>e \<in> set (event_tbl d).
               ev_user_id e = u \<and> ev_team_id e = team_id s \<and> ev_role_id e = role_id s \<and>
               ev_start e \<le> ?start \<and>
               (\<forall>e' \<in> set (event_tbl d).
                  ev_team_id e' = team_id s \<and> ev_role_id e' = role_id s \<and>
                  ev_user_id e' \<in> set roster \<and> ev_start e' \<le> ?start
                  \<longrightarrow> ev_start e' \<le> ev_start e)"
    by (auto simp: qualifying_events_def)
qed

text \<open>C6, at the round-robin scenario: the event of user 101 at 1000 decides.\<close>

theorem calendar_inference_witness:
  "cursor_rows rr_db rr_schedule = [None] \<and>
   roster_of rr_db rr_schedule = [101, 102, 103] \<and>
   not_in_roster None [101, 102, 103] \<and>
   guess_last_scheduled_user rr_db rr_schedule 3000 [101, 102, 103] = Some 101 \<and>
   101 \<in> roster_users rr_db rr_schedule \<and>
   find_next_user_id rr_db rr_schedule [\<lparr>fe_start = 3000, fe_end = 607800\<rparr>] =
     next_after [101, 102, 103] 101"
proof -
  let ?fe = "[\<lparr>fe_start = 3000, fe_end = 607800\<rparr>]"
  have n: "not_in_roster None [101, 102, 103]" by (simp add: not_in_roster_def)
  have m: "Min (fe_start ` set ?fe) = 3000" by simp
  from calendar_inference[OF rr_cursor_rows rr_roster _ n, of ?fe] rr_guess
  have "find_next_user_id rr_db rr_schedule ?fe = next_after [101, 102, 103] 101"
    and "101 \<in> roster_users rr_db rr_schedule"
    unfolding m by simp_all
  with rr_cursor_rows rr_roster n rr_guess show ?thesis by blast
qed



text \<open>
  C8 (link ids). \<^verbatim>\<open>create_events\<close> appends one event per segment, in order. For a period
  of exactly one segment the event has no link id and \<^verbatim>\<open>gen_link_id\<close> is not called; for
  any other period \<^verbatim>\<open>gen_link_id\<close> is called once and all the events carry its result.
\<close>

theorem create_events_link_id:
  "event_tbl (fst (create_events gen team sid user evs role skip (d, n))) =
     event_tbl d @
     map (new_event team sid user role (if length evs = 1 then None else Some (gen n))) evs \<and>
   map ev_link_id (drop (length (event_tbl d))
       (event_tbl (fst (create_events gen team sid user evs role skip (d, n))))) =
     replicate (length evs) (if length evs = 1 then None else Some (gen n)) \<and>
   snd (create_events gen team sid user evs role skip (d, n)) =
     (if length evs = 1 then n else Suc n)"
proof (intro conjI)
  show 1: "event_tbl (fst (create_events gen team sid user evs role skip (d, n))) =
     event_tbl d @
     map (new_event team sid user role (if length evs = 1 then None else Some (gen n))) evs"
    by (rule create_events_event_tbl)
  show "map ev_link_id (drop (length (event_tbl d))
       (event_tbl (fst (create_events gen team sid user evs role skip (d, n))))) =
     replicate (length evs) (if length evs = 1 then None else Some (gen n))"
    unfolding 1 by (simp add: new_event_def map_replicate_const comp_def)
  show "snd (create_events gen team sid user evs role skip (d, n)) =
     (if length evs = 1 then n else Suc n)"
    by (rule create_events_counter)
qed

text \<open>C8, at a period of two segments and at a period of one.\<close>

theorem create_events_link_id_witness:
  "map ev_link_id (event_tbl (fst (create_events link_a 10 1 102
      [\<lparr>fe_start = 3000, fe_end = 46200\<rparr>, \<lparr>fe_start = 89400, fe_end = 132600\<rparr>] 30 True
      (rr_db, 0)))) = [None, Some ''a'', Some ''a''] \<and>
   map ev_link_id (event_tbl (fst (create_events link_a 10 1 102
      [\<lparr>fe_start = 3000, fe_end = 607800\<rparr>] 30 True (rr_db, 0)))) = [None, None]"
proof -
  have l: "link_a 0 = ''a''" by (simp add: link_a_def)
  have t: "map ev_link_id (event_tbl rr_db) = [None]" by (simp add: rr_db_def)
  from create_events_link_id[of link_a 10 1 102
      "[\<lparr>fe_start = 3000, fe_end = 46200\<rparr>, \<lparr>fe_start = 89400, fe_end = 132600\<rparr>]" 30 True rr_db 0]
    create_events_link_id[of link_a 10 1 102 "[\<lparr>fe_start = 3000, fe_end = 607800\<rparr>]" 30 True rr_db 0]
  show ?thesis by (simp add: l t new_event_def)
qed

text \<open>
  C9 (invalid start). A populate request whose start is earlier than now minus the
  schedule's horizon is answered with the 400 error, and the persisted database (the
  schedule rows and the events) is the one before the request.
\<close>

theorem populate_rejects_stale_start:
  assumes "start < now - auto_populate_threshold s * 86400"
  shows "populate_request gen now s start (d, n) = (Inl HTTPBadRequest, d)"
  using assms by (simp add: populate_request_def populate_def default_populate_def)

text \<open>C9, at the round-robin scenario with the clock far ahead of the start.\<close>

theorem populate_rejects_stale_start_witness:
  "(3000 :: int) < 10000000 - auto_populate_threshold rr_schedule * 86400 \<and>
   populate_request link_a 10000000 rr_schedule 3000 (rr_db, 0) = (Inl HTTPBadRequest, rr_db)"
proof -
  have h: "(3000 :: int) < 10000000 - auto_populate_threshold rr_schedule * 86400"
    by (simp add: rr_schedule_def)
  from populate_rejects_stale_start[OF h, of link_a rr_db 0] h show ?thesis by blast
qed

text \<open>
  C10 (failure of find_next_user_id), as stated, fails where the roster is empty: the
  stored cursor is NULL, \<^verbatim>\<open>future_events\<close> is empty, and the guard before \<^verbatim>\<open>min\<close>
  returns None.
\<close>

theorem find_next_user_id_empty_roster_returns:
  "hd (cursor_rows rr_db_idle rr_schedule) = None \<and>
   not_in_roster (hd (cursor_rows rr_db_idle rr_schedule)) (roster_of rr_db_idle rr_schedule) \<and>
   find_next_user_id rr_db_idle rr_schedule [] = Inr None"
proof -
  have 1: "hd (cursor_rows rr_db_idle rr_schedule) = None"
    by code_simp
  have 2: "not_in_roster (hd (cursor_rows rr_db_idle rr_schedule)) (roster_of rr_db_idle rr_schedule)"
    by (simp add: 1 not_in_roster_def)
  have 3: "find_next_user_id rr_db_idle rr_schedule [] = Inr None"
    by code_simp
  from 1 2 3 show ?thesis by blast
qed

text \<open>
  C10, amended. \<^verbatim>\<open>find_next_user_id\<close> raises exactly when the schedule exists, the
  roster is not empty, the stored cursor is NULL or not in the roster, and
  \<^verbatim>\<open>future_events\<close> is empty; the exception is the ValueError of \<^verbatim>\<open>min\<close>. So with a
  non-empty \<^verbatim>\<open>future_events\<close> it always returns.
\<close>

theorem find_next_user_id_fails_iff:
  "find_next_user_id d s fe = Inl e \<longleftrightarrow>
     e = ValueError \<and> fe = [] \<and> cursor_rows d s \<noteq> [] \<and> roster_of d s \<noteq> [] \<and>
     not_in_roster (hd (cursor_rows d s)) (roster_of d s)"
proof (cases "cursor_rows d s = [] \<or> roster_of d s = []")
  case True
  from find_next_user_id_bail[OF this] True show ?thesis by auto
next
  case False
  then obtain c cs where c: "cursor_rows d s = c # cs" and r: "roster_of d s \<noteq> []"
    by (cases "cursor_rows d s") auto
  show ?thesis
  proof (cases "not_in_roster c (roster_of d s)")
    case inferred: True
    show ?thesis
    proof (cases "fe = []")
      case True
      with find_next_user_id_guess[OF c r inferred, of fe] c r inferred
      show ?thesis by (auto simp: py_min_def)
    next
      case False
      then have m: "py_min (map fe_start fe) = Inr (Min (fe_start ` set fe))"
        using py_min_nonempty[of "map fe_start fe"] by simp
      show ?thesis
      proof (cases "guess_last_scheduled_user d s (Min (fe_start ` set fe)) (roster_of d s)")
        case None
        with find_next_user_id_guess[OF c r inferred, of fe] m False show ?thesis by simp
      next
        case (Some u)
        from next_after_in[OF guess_in_roster[OF Some]] obtain r' where
          "next_after (roster_of d s) u = Inr r'" by blast
        with find_next_user_id_guess[OF c r inferred, of fe] m Some False show ?thesis by simp
      qed
    qed
  next
    case stored: False
    then obtain u where u: "c = Some u" "u \<in> set (roster_of d s)"
      by (auto simp: not_in_roster_def split: option.splits)
    from next_after_in[OF u(2)] obtain r' where "next_after (roster_of d s) u = Inr r'" by blast
    with find_next_user_id_stored[OF c r stored, of fe] u c stored show ?thesis by simp
  qed
qed

text \<open>
  C10, at the round-robin scenario: no segments, a ValueError; one segment, a result.
\<close>

theorem find_next_user_id_fails_iff_witness:
  "find_next_user_id rr_db rr_schedule [] = Inl ValueError \<and>
   (\<exists>r. find_next_user_id rr_db rr_schedule [\<lparr>fe_start = 3000, fe_end = 607800\<rparr>] = Inr r)"
proof -
  have n: "not_in_roster (hd (cursor_rows rr_db rr_schedule)) (roster_of rr_db rr_schedule)"
    by (simp add: rr_cursor_rows not_in_roster_def)
  from find_next_user_id_fails_iff[of rr_db rr_schedule "[]" ValueError] n rr_cursor_rows rr_roster
  have 1: "find_next_user_id rr_db rr_schedule [] = Inl ValueError" by simp
  have "find_next_user_id rr_db rr_schedule [\<lparr>fe_start = 3000, fe_end = 607800\<rparr>] \<noteq> Inl e" for e
    using find_next_user_id_fails_iff[of rr_db rr_schedule "[\<lparr>fe_start = 3000, fe_end = 607800\<rparr>]" e]
    by simp
  then have 2: "\<exists>r. find_next_user_id rr_db rr_schedule [\<lparr>fe_start = 3000, fe_end = 607800\<rparr>] = Inr r"
    by (cases "find_next_user_id rr_db rr_schedule [\<lparr>fe_start = 3000, fe_end = 607800\<rparr>]") auto
  from 1 2 show ?thesis by blast
qed

end
